theory Spec2Isabelle
  imports Complex_Main "HOL-Library.AList" "HOL-Library.Log_Nat"
begin

section \<open>The vehicle control link of \<^verbatim>\<open>src/vehicle/vehicle_control.py\<close>\<close>

text \<open>
  The class \<^verbatim>\<open>VehicleControl\<close> keeps two flags (\<^verbatim>\<open>connected\<close>, \<^verbatim>\<open>armed\<close>) and the
  time of the last heartbeat, and talks to three collaborators: the MAVLink telemetry link
  (\<^verbatim>\<open>self.link\<close>), the relay socket (\<^verbatim>\<open>self.socket\<close>) and the four Qt signals.
  The model threads one record through every method. The calls made on the collaborators
  are appended, in program order, to the field \<open>trace\<close>; the flags are the other fields.
  A method that returns gives \<open>Inr s'\<close>, with \<open>s'\<close> the state it leaves; a method that
  raises gives \<open>Inl (e, s')\<close>, the exception together with the state the object is left in.

  Modelling choices:
  \<^item> a finite Python \<^verbatim>\<open>float\<close> (an IEEE double) is given by its value, a \<open>real\<close>. The
    arithmetic on axis values is the double arithmetic of the source: each product and
    sum is rounded to the nearest double (\<open>double_round\<close>), and Python's \<^verbatim>\<open>round\<close> (round
    half to even) is written out. The clock of \<^verbatim>\<open>update\<close> is read as a real number;
  \<^item> a \<^verbatim>\<open>dict\<close> is the list of its items in iteration order; storing under a key is
    \<open>AList.update\<close> (replace in place, else append), as Python does;
  \<^item> what the environment decides is a parameter: the result of
    \<^verbatim>\<open>wait_heartbeat(blocking=False)\<close>, the value of \<^verbatim>\<open>time.time()\<close>, and whether
    \<^verbatim>\<open>socket.sendall\<close> raises;
  \<^item> calls to the logger are not recorded.
\<close>

subsection \<open>Constants and enumerations\<close>

definition TIMEOUT :: real where
  "TIMEOUT = 2"

datatype InputChannel =
  PITCH | ROLL | THROTTLE | YAW | FORWARD | LATERAL
  | PAN_CAMERA | TILT_CAMERA | LIGHTS_1 | LIGHTS_2 | VIDEO_SWITCH

fun channel_value :: "InputChannel \<Rightarrow> int" where
  "channel_value PITCH = 1"
| "channel_value ROLL = 2"
| "channel_value THROTTLE = 3"
| "channel_value YAW = 4"
| "channel_value FORWARD = 5"
| "channel_value LATERAL = 6"
| "channel_value PAN_CAMERA = 7"
| "channel_value TILT_CAMERA = 8"
| "channel_value LIGHTS_1 = 9"
| "channel_value LIGHTS_2 = 10"
| "channel_value VIDEO_SWITCH = 11"

datatype Relay = PVC_FRONT | CLAW_FRONT | PVC_BACK | CLAW_BACK | MAGNET | LIGHTS

fun relay_value :: "Relay \<Rightarrow> int" where
  "relay_value PVC_FRONT = 1"
| "relay_value CLAW_FRONT = 4"
| "relay_value PVC_BACK = 2"
| "relay_value CLAW_BACK = 3"
| "relay_value MAGNET = 0"
| "relay_value LIGHTS = 5"

text \<open>\<^verbatim>\<open>for relay in Relay\<close> visits the members in the order of their definition.\<close>

definition all_relays :: "Relay list" where
  "all_relays = [PVC_FRONT, CLAW_FRONT, PVC_BACK, CLAW_BACK, MAGNET, LIGHTS]"

subsection \<open>State, events and errors\<close>

datatype signal = connected_signal | disconnected_signal | armed_signal | disarmed_signal

text \<open>
  One constructor for each call on a collaborator:
  \<^item> \<open>Emit sg\<close>: \<^verbatim>\<open>sg.emit()\<close>;
  \<^item> \<open>ArducopterArm\<close>, \<open>ArducopterDisarm\<close>: \<^verbatim>\<open>link.arducopter_arm()\<close>,
    \<^verbatim>\<open>link.arducopter_disarm()\<close>;
  \<^item> \<open>RcChannelsOverrideSend vs\<close>: \<^verbatim>\<open>link.mav.rc_channels_override_send\<close> with the
    channel values \<open>vs\<close> (the two target ids are attributes of the link);
  \<^item> \<open>SocketConnectEx\<close>: \<^verbatim>\<open>socket.connect_ex((HOST, PORT))\<close>;
  \<^item> \<open>SocketSendall bs raised\<close>: \<^verbatim>\<open>socket.sendall(bytes(bs))\<close>, and whether it raised
    (the exception is caught and logged by the caller).
\<close>

datatype event =
  Emit signal
  | ArducopterArm
  | ArducopterDisarm
  | RcChannelsOverrideSend "int list"
  | SocketConnectEx
  | SocketSendall "int list" bool

datatype reason =
  ChannelDoesNotExist int
  | PwmOutOfRange int
  | InputOutOfRange real

datatype error = ValueError reason | TypeError

record vehicle =
  last_msg_time :: "real option"
  connected :: bool
  armed :: bool
  trace :: "event list"

type_synonym result = "(error \<times> vehicle) + vehicle"

text \<open>The state of the object after a call, whether it returned or raised.\<close>

definition final :: "result \<Rightarrow> vehicle" where
  "final r = (case r of Inl (e, s) \<Rightarrow> s | Inr s \<Rightarrow> s)"

text \<open>The state after \<^verbatim>\<open>__init__\<close>.\<close>

definition init :: vehicle where
  "init = \<lparr>last_msg_time = None, connected = False, armed = False, trace = []\<rparr>"

text \<open>
  A heartbeat message as \<^verbatim>\<open>update\<close> reads it: the field \<^verbatim>\<open>base_mode\<close> of its
  dictionary, which every MAVLink HEARTBEAT carries.
\<close>

record heartbeat =
  base_mode :: int

definition emit :: "signal \<Rightarrow> vehicle \<Rightarrow> vehicle" where
  "emit sg s = s\<lparr>trace := trace s @ [Emit sg]\<rparr>"

definition call :: "event \<Rightarrow> vehicle \<Rightarrow> vehicle" where
  "call e s = s\<lparr>trace := trace s @ [e]\<rparr>"

subsection \<open>\<^verbatim>\<open>update\<close>\<close>

text \<open>
  \<open>msg\<close> is what \<^verbatim>\<open>wait_heartbeat(blocking=False)\<close> returned and \<open>now\<close> the value of
  \<^verbatim>\<open>time.time()\<close>, which each branch reads once. In the branch without a message,
  \<^verbatim>\<open>time.time() - self.last_msg_time\<close> is evaluated only when \<^verbatim>\<open>connected\<close> holds and
  raises a TypeError when no message was ever recorded.
\<close>

definition update :: "vehicle \<Rightarrow> heartbeat option \<Rightarrow> real \<Rightarrow> result" where
  "update s msg now =
     (case msg of
        Some m \<Rightarrow>
          (let s1 = (if \<not> connected s then (emit connected_signal s)\<lparr>connected := True\<rparr> else s);
               s2 = s1\<lparr>last_msg_time := Some now\<rparr>;
               a = (and (base_mode m) 0x80 = 0x80);
               s3 = (if a \<noteq> armed s2
                     then (if a then emit armed_signal s2 else emit disarmed_signal s2)
                     else s2)
           in Inr (s3\<lparr>armed := a\<rparr>))
      | None \<Rightarrow>
          (if connected s
           then (case last_msg_time s of
                   None \<Rightarrow> Inl (TypeError, s)
                 | Some t \<Rightarrow>
                     (if now - t > TIMEOUT
                      then Inr ((emit disconnected_signal s)\<lparr>connected := False\<rparr>)
                      else Inr s))
           else Inr s))"

text \<open>A run of the polling loop: one \<^verbatim>\<open>update\<close> per input, stopping at an exception.\<close>

fun run_updates :: "vehicle \<Rightarrow> (heartbeat option \<times> real) list \<Rightarrow> result" where
  "run_updates s [] = Inr s"
| "run_updates s ((msg, now) # ins) =
     (case update s msg now of Inl e \<Rightarrow> Inl e | Inr s' \<Rightarrow> run_updates s' ins)"

text \<open>The states a run passes through, the first one included.\<close>

fun visited :: "vehicle \<Rightarrow> (heartbeat option \<times> real) list \<Rightarrow> vehicle list" where
  "visited s [] = [s]"
| "visited s ((msg, now) # ins) =
     s # (case update s msg now of Inl e \<Rightarrow> [] | Inr s' \<Rightarrow> visited s' ins)"

text \<open>How often a flag goes from false to true, and from true to false, along a list of states.\<close>

fun rises :: "('a \<Rightarrow> bool) \<Rightarrow> 'a list \<Rightarrow> nat" where
  "rises f (a # b # xs) = (if \<not> f a \<and> f b then 1 else 0) + rises f (b # xs)"
| "rises f xs = 0"

fun falls :: "('a \<Rightarrow> bool) \<Rightarrow> 'a list \<Rightarrow> nat" where
  "falls f (a # b # xs) = (if f a \<and> \<not> f b then 1 else 0) + falls f (b # xs)"
| "falls f xs = 0"

subsection \<open>Commands\<close>

definition arm :: "vehicle \<Rightarrow> vehicle" where
  "arm s = call SocketConnectEx (call ArducopterArm s)"

definition is_connected :: "vehicle \<Rightarrow> bool" where
  "is_connected s = connected s"

definition is_armed :: "vehicle \<Rightarrow> bool" where
  "is_armed s = armed s"

text \<open>
  \<open>raised\<close> says whether \<^verbatim>\<open>socket.sendall\<close> raises, should it be called; \<^verbatim>\<open>int(state)\<close>
  is 1 for \<^verbatim>\<open>True\<close> and 0 for \<^verbatim>\<open>False\<close>.
\<close>

definition set_relay :: "vehicle \<Rightarrow> Relay \<Rightarrow> bool \<Rightarrow> bool \<Rightarrow> vehicle" where
  "set_relay s relay state raised =
     (if \<not> is_connected s \<or> (\<not> is_armed s \<and> state) then s
      else call (SocketSendall [relay_value relay, if state then 1 else 0] raised) s)"

text \<open>\<open>raised relay\<close> is the outcome of the send for \<open>relay\<close>.\<close>

fun turn_off_relays_loop :: "vehicle \<Rightarrow> (Relay \<Rightarrow> bool) \<Rightarrow> Relay list \<Rightarrow> vehicle" where
  "turn_off_relays_loop s raised [] = s"
| "turn_off_relays_loop s raised (relay # rs) =
     turn_off_relays_loop (set_relay s relay False (raised relay)) raised rs"

definition turn_off_relays :: "vehicle \<Rightarrow> (Relay \<Rightarrow> bool) \<Rightarrow> vehicle" where
  "turn_off_relays s raised = turn_off_relays_loop s raised all_relays"

definition disarm :: "vehicle \<Rightarrow> (Relay \<Rightarrow> bool) \<Rightarrow> vehicle" where
  "disarm s raised = call ArducopterDisarm (turn_off_relays s raised)"

text \<open>
  The loop of \<^verbatim>\<open>set_rc_input_pwms\<close> over \<^verbatim>\<open>pwms.items()\<close>; \<open>vs\<close> is
  \<^verbatim>\<open>rc_channel_values\<close>. The index \<^verbatim>\<open>channel_id - 1\<close> is between 0 and 17 once the
  first check has passed.
\<close>

fun rc_loop :: "int list \<Rightarrow> (int \<times> int) list \<Rightarrow> error + int list" where
  "rc_loop vs [] = Inr vs"
| "rc_loop vs ((channel_id, pwm) # items) =
     (if channel_id < 1 \<or> channel_id > 18 then Inl (ValueError (ChannelDoesNotExist channel_id))
      else if \<not> (1100 \<le> pwm \<and> pwm \<le> 1900) then Inl (ValueError (PwmOutOfRange pwm))
      else rc_loop (vs[nat (channel_id - 1) := pwm]) items)"

definition set_rc_input_pwms :: "vehicle \<Rightarrow> (int \<times> int) list \<Rightarrow> result" where
  "set_rc_input_pwms s pwms =
     (if \<not> is_connected s \<or> \<not> is_armed s then Inr s
      else (case rc_loop (replicate 18 65535) pwms of
              Inl e \<Rightarrow> Inl (e, s)
            | Inr rc_channel_values \<Rightarrow> Inr (call (RcChannelsOverrideSend rc_channel_values) s)))"

text \<open>
  Rounding to the nearest integer, a tie to the even one. It is Python's \<^verbatim>\<open>round\<close> with
  one argument, applied to the exact value of the float, and it is the rounding of the
  significand in IEEE arithmetic.
\<close>

definition round_half_even :: "real \<Rightarrow> int" where
  "round_half_even x =
     (let f = \<lfloor>x\<rfloor>; d = x - of_int f
      in if d < 1/2 then f else if d > 1/2 then f + 1 else if even f then f else f + 1)"

definition py_round :: "real \<Rightarrow> int" where
  "py_round x = round_half_even x"

text \<open>
  IEEE double arithmetic, round to nearest, ties to even. \<open>pow2 e\<close> is \<open>2^e\<close> and, for
  \<open>x > 0\<close>, \<open>ilog2 x\<close> is the exponent \<open>e\<close> with \<open>2^e \<le> x < 2^(e+1)\<close>. A double has a
  significand of 53 bits and its last bit is worth at least \<open>2^-1074\<close>, so a real \<open>x\<close>
  is rounded on the grid of the multiples of \<open>2^q\<close> with \<open>q = max (ilog2 \<bar>x\<bar> - 52) (-1074)\<close>.
  Overflow to infinity is not modelled: the operands below are at most 1900 in size.
\<close>

definition pow2 :: "int \<Rightarrow> real" where
  "pow2 e = (if 0 \<le> e then 2 ^ nat e else 1 / 2 ^ nat (- e))"

definition ilog2 :: "real \<Rightarrow> int" where
  "ilog2 x = (if 1 \<le> x then bitlen \<lfloor>x\<rfloor> - 1 else - bitlen (\<lceil>1 / x\<rceil> - 1))"

definition double_round :: "real \<Rightarrow> real" where
  "double_round x =
     (if x = 0 then 0
      else (let q = max (ilog2 \<bar>x\<bar> - 52) (- 1074)
            in of_int (round_half_even (x / pow2 q)) * pow2 q))"

definition is_double :: "real \<Rightarrow> bool" where
  "is_double x \<longleftrightarrow> double_round x = x \<and> \<bar>x\<bar> < pow2 1024"

definition double_mul :: "real \<Rightarrow> real \<Rightarrow> real" where
  "double_mul x y = double_round (x * y)"

definition double_add :: "real \<Rightarrow> real \<Rightarrow> real" where
  "double_add x y = double_round (x + y)"

text \<open>
  The body of the loop of \<^verbatim>\<open>set_rc_inputs\<close> for one value \<open>val\<close>, a double: the range
  check, \<^verbatim>\<open>round(val * 400 + 1500)\<close> with the product and the sum computed in doubles
  (the integers 400 and 1500 are doubles exactly), and the clamp. An \<^verbatim>\<open>int\<close> that passes
  the range check is -1, 0 or 1 and gives the result of the float of the same value. A
  NaN or an infinity fails the range check as every value outside [-1,1] does.
\<close>

definition input_pwm :: "real \<Rightarrow> error + int" where
  "input_pwm val =
     (if \<not> (-1 \<le> val \<and> val \<le> 1) then Inl (ValueError (InputOutOfRange val))
      else Inr (min (max (py_round (double_add (double_mul val 400) 1500)) 1100) 1900))"

fun inputs_loop ::
  "(int \<times> int) list \<Rightarrow> (InputChannel \<times> real) list \<Rightarrow> error + (int \<times> int) list" where
  "inputs_loop pwms [] = Inr pwms"
| "inputs_loop pwms ((channel, val) # items) =
     (case input_pwm val of
        Inl e \<Rightarrow> Inl e
      | Inr pwm \<Rightarrow> inputs_loop (AList.update (channel_value channel) pwm pwms) items)"

definition set_rc_inputs :: "vehicle \<Rightarrow> (InputChannel \<times> real) list \<Rightarrow> result" where
  "set_rc_inputs s values =
     (case inputs_loop [] values of
        Inl e \<Rightarrow> Inl (e, s)
      | Inr pwms \<Rightarrow> set_rc_input_pwms s pwms)"

definition stop_thrusters :: "vehicle \<Rightarrow> result" where
  "stop_thrusters s =
     set_rc_inputs s
       [(FORWARD, 0), (LATERAL, 0), (THROTTLE, 0), (YAW, 0), (PITCH, 0), (ROLL, 0)]"

section \<open>Properties\<close>

lemmas gate_defs = is_connected_def is_armed_def

subsection \<open>What one \<^verbatim>\<open>update\<close> does\<close>

lemma update_heartbeat:
  "update s (Some m) now =
     Inr \<lparr>last_msg_time = Some now, connected = True, armed = (and (base_mode m) 0x80 = 0x80),
          trace = trace s @ (if connected s then [] else [Emit connected_signal])
                  @ (if (and (base_mode m) 0x80 = 0x80) = armed s then []
                     else if and (base_mode m) 0x80 = 0x80 then [Emit armed_signal]
                     else [Emit disarmed_signal])\<rparr>"
  by (simp add: update_def emit_def Let_def)

lemma update_silence:
  "update s None now =
     (if connected s
      then (case last_msg_time s of
              None \<Rightarrow> Inl (TypeError, s)
            | Some t \<Rightarrow> if now - t > TIMEOUT
                        then Inr (s\<lparr>connected := False, trace := trace s @ [Emit disconnected_signal]\<rparr>)
                        else Inr s)
      else Inr s)"
  by (simp add: update_def emit_def split: option.splits)

text \<open>
  The subtraction in the branch without a message needs a recorded time. It has one in
  every state the polling loop reaches: a flag is only ever set together with the time.
\<close>

lemma update_keeps_time:
  assumes "update s msg now = Inr s'"
    and "connected s \<longrightarrow> last_msg_time s \<noteq> None"
    and "armed s \<longrightarrow> last_msg_time s \<noteq> None"
  shows "(connected s' \<longrightarrow> last_msg_time s' \<noteq> None) \<and> (armed s' \<longrightarrow> last_msg_time s' \<noteq> None)"
proof (cases msg)
  case None
  with assms show ?thesis
    by (auto simp: update_silence split: if_splits option.splits)
next
  case (Some m)
  with assms show ?thesis
    by (auto simp: update_heartbeat)
qed

lemma run_updates_keeps_time:
  "run_updates s ins = Inr s' \<Longrightarrow> connected s \<longrightarrow> last_msg_time s \<noteq> None
   \<Longrightarrow> armed s \<longrightarrow> last_msg_time s \<noteq> None
   \<Longrightarrow> (connected s' \<longrightarrow> last_msg_time s' \<noteq> None) \<and> (armed s' \<longrightarrow> last_msg_time s' \<noteq> None)"
proof (induction s ins rule: run_updates.induct)
  case (1 s)
  then show ?case by simp
next
  case (2 s msg now ins)
  from "2.prems"(1) obtain s1
    where u: "update s msg now = Inr s1" and r: "run_updates s1 ins = Inr s'"
    by (auto split: sum.splits)
  from update_keeps_time [OF u "2.prems"(2) "2.prems"(3)] "2.IH" [OF u r]
  show ?case by blast
qed

lemma update_no_error:
  "connected s \<longrightarrow> last_msg_time s \<noteq> None \<Longrightarrow> \<exists>s'. update s msg now = Inr s'"
  by (cases msg) (auto simp: update_heartbeat update_silence split: option.splits)

lemma run_updates_no_error:
  "connected s \<longrightarrow> last_msg_time s \<noteq> None \<Longrightarrow> armed s \<longrightarrow> last_msg_time s \<noteq> None
   \<Longrightarrow> \<exists>s'. run_updates s ins = Inr s'"
proof (induction s ins rule: run_updates.induct)
  case (1 s)
  then show ?case by simp
next
  case (2 s msg now ins)
  from update_no_error [OF "2.prems"(1)] obtain s1 where u: "update s msg now = Inr s1"
    by blast
  from update_keeps_time [OF u "2.prems"(1) "2.prems"(2)] "2.IH" [OF u] u
  show ?case by auto
qed

lemma update_raise:
  "update s msg now = Inl (e, s0) \<Longrightarrow> e = TypeError \<and> s0 = s"
  by (cases msg) (auto simp: update_heartbeat update_silence split: if_splits option.splits)

lemma visited_Cons: "\<exists>xs. visited s ins = s # xs"
  by (cases ins) auto

lemma last_visited_Cons: "last (a # visited s ins) = last (visited s ins)"
  using visited_Cons [of s ins] by auto

text \<open>The last state a run visits is the state the run leaves, raised or not.\<close>

lemma final_run_updates: "final (run_updates s ins) = last (visited s ins)"
proof (induction s ins rule: run_updates.induct)
  case (1 s)
  show ?case by (simp add: final_def)
next
  case (2 s msg now ins)
  show ?case
  proof (cases "update s msg now")
    case (Inl p)
    obtain e s0 where p: "p = (e, s0)" by (cases p)
    with Inl update_raise [of s msg now e s0] show ?thesis
      by (simp add: final_def)
  next
    case (Inr s')
    have "visited s ((msg, now) # ins) = s # visited s' ins"
      using Inr by simp
    with "2.IH" [OF Inr] Inr show ?thesis
      by (simp only: last_visited_Cons run_updates.simps sum.case)
  qed
qed

subsection \<open>Gating of actuation commands\<close>

text \<open>
  C1. When \<^verbatim>\<open>connected\<close> or \<^verbatim>\<open>armed\<close> is false, \<^verbatim>\<open>set_rc_input_pwms\<close> (with any mapping)
  and \<^verbatim>\<open>set_relay\<close> with \<^verbatim>\<open>state=True\<close> return normally and leave the whole state as it
  was: nothing is appended to the trace, so nothing is sent on the telemetry link or on
  the relay socket.
\<close>

theorem gated_commands_send_nothing:
  assumes "\<not> connected s \<or> \<not> armed s"
  shows "set_rc_input_pwms s pwms = Inr s \<and> set_relay s relay True raised = s"
  using assms by (auto simp: set_rc_input_pwms_def set_relay_def gate_defs)

theorem gated_commands_send_nothing_witness:
  "\<not> armed (init\<lparr>connected := True\<rparr>)
   \<and> set_rc_input_pwms (init\<lparr>connected := True\<rparr>) [(3, 1900), (99, 7)] = Inr (init\<lparr>connected := True\<rparr>)
   \<and> set_relay (init\<lparr>connected := True\<rparr>) MAGNET True False = init\<lparr>connected := True\<rparr>"
  using gated_commands_send_nothing [of "init\<lparr>connected := True\<rparr>" "[(3, 1900), (99, 7)]" MAGNET False]
  by (simp add: init_def)

subsection \<open>The flags along the polling loop\<close>

text \<open>
  C2, as stated, fails: the timeout branch of \<^verbatim>\<open>update\<close> assigns \<^verbatim>\<open>connected\<close> only.
  A heartbeat with the armed bit at time 0 and a poll without a message at time 3 lead
  from the initial state to a state that is armed and not connected.
\<close>

theorem disconnected_and_armed_reachable:
  "run_updates init [(Some \<lparr>base_mode = 128\<rparr>, 0), (None, 3)] =
     Inr \<lparr>last_msg_time = Some 0, connected = False, armed = True,
          trace = [Emit connected_signal, Emit armed_signal, Emit disconnected_signal]\<rparr>"
  by (simp add: update_def init_def emit_def TIMEOUT_def)

text \<open>
  C2, amended. From the initial state no sequence of \<^verbatim>\<open>update\<close> calls raises, and in every
  state it reaches a set flag (\<^verbatim>\<open>armed\<close> or \<^verbatim>\<open>connected\<close>) implies that a heartbeat time is
  recorded. An \<^verbatim>\<open>update\<close> that turns \<^verbatim>\<open>armed\<close> from false to true leaves \<^verbatim>\<open>connected\<close>
  true. The timeout transition (connected, more than \<open>TIMEOUT\<close> since the last message,
  no message now) sets \<^verbatim>\<open>connected\<close> to false, emits \<^verbatim>\<open>disconnected\<close> once and changes
  nothing else: \<^verbatim>\<open>armed\<close> keeps its value.
\<close>

theorem update_timeout_leaves_armed:
  "(run_updates init ins = Inr s \<longrightarrow> armed s \<or> connected s \<longrightarrow> last_msg_time s \<noteq> None)
   \<and> (\<exists>s'. run_updates init ins = Inr s')
   \<and> (update u msg now = Inr u' \<longrightarrow> armed u' \<longrightarrow> \<not> armed u \<longrightarrow> connected u')
   \<and> (connected v \<longrightarrow> last_msg_time v = Some t \<longrightarrow> now' - t > TIMEOUT \<longrightarrow>
        update v None now' =
          Inr (v\<lparr>connected := False, trace := trace v @ [Emit disconnected_signal]\<rparr>))"
proof -
  have i: "connected init \<longrightarrow> last_msg_time init \<noteq> None"
    "armed init \<longrightarrow> last_msg_time init \<noteq> None"
    by (simp_all add: init_def)
  have a: "run_updates init ins = Inr s \<longrightarrow> armed s \<or> connected s \<longrightarrow> last_msg_time s \<noteq> None"
    using run_updates_keeps_time [OF _ i] by blast
  have b: "\<exists>s'. run_updates init ins = Inr s'"
    using run_updates_no_error [OF i] .
  have c: "update u msg now = Inr u' \<longrightarrow> armed u' \<longrightarrow> \<not> armed u \<longrightarrow> connected u'"
    by (cases msg) (auto simp: update_heartbeat update_silence split: option.splits if_splits)
  have d: "connected v \<longrightarrow> last_msg_time v = Some t \<longrightarrow> now' - t > TIMEOUT \<longrightarrow>
        update v None now' =
          Inr (v\<lparr>connected := False, trace := trace v @ [Emit disconnected_signal]\<rparr>)"
    by (simp add: update_silence)
  from a b c d show ?thesis by blast
qed

theorem update_timeout_leaves_armed_witness:
  "run_updates init [(Some \<lparr>base_mode = 128\<rparr>, 0)] =
     Inr \<lparr>last_msg_time = Some 0, connected = True, armed = True,
          trace = [Emit connected_signal, Emit armed_signal]\<rparr>
   \<and> last_msg_time \<lparr>last_msg_time = Some 0, connected = True, armed = True,
          trace = [Emit connected_signal, Emit armed_signal]\<rparr> \<noteq> None
   \<and> update init (Some \<lparr>base_mode = 128\<rparr>) 0 =
       Inr \<lparr>last_msg_time = Some 0, connected = True, armed = True,
          trace = [Emit connected_signal, Emit armed_signal]\<rparr>
   \<and> \<not> armed init
   \<and> connected \<lparr>last_msg_time = Some 0, connected = True, armed = True,
          trace = [Emit connected_signal, Emit armed_signal]\<rparr>
   \<and> 3 - 0 > TIMEOUT
   \<and> update \<lparr>last_msg_time = Some 0, connected = True, armed = True,
          trace = [Emit connected_signal, Emit armed_signal]\<rparr> None 3 =
       Inr \<lparr>last_msg_time = Some 0, connected = False, armed = True,
          trace = [Emit connected_signal, Emit armed_signal, Emit disconnected_signal]\<rparr>"
  using update_timeout_leaves_armed
    [of "[(Some \<lparr>base_mode = 128\<rparr>, 0)]"
        "\<lparr>last_msg_time = Some 0, connected = True, armed = True,
          trace = [Emit connected_signal, Emit armed_signal]\<rparr>"
        init "Some \<lparr>base_mode = 128\<rparr>" 0
        "\<lparr>last_msg_time = Some 0, connected = True, armed = True,
          trace = [Emit connected_signal, Emit armed_signal]\<rparr>"
        "\<lparr>last_msg_time = Some 0, connected = True, armed = True,
          trace = [Emit connected_signal, Emit armed_signal]\<rparr>" 0 3]
  by (simp add: update_heartbeat init_def TIMEOUT_def)

subsection \<open>Relays\<close>

text \<open>
  C3, as stated, fails: the gate of \<^verbatim>\<open>set_relay\<close> tests \<^verbatim>\<open>connected\<close> for both values of
  \<^verbatim>\<open>state\<close>. In the initial state (not connected) switching the magnet off sends nothing.
\<close>

theorem relay_off_dropped_when_disconnected:
  "set_relay init MAGNET False False = init"
  by (simp add: set_relay_def gate_defs init_def)

text \<open>
  C3, amended. \<^verbatim>\<open>set_relay(id, False)\<close> passes \<^verbatim>\<open>[pin, 0]\<close> to \<^verbatim>\<open>sendall\<close> exactly when
  \<^verbatim>\<open>connected\<close> is true, whatever \<^verbatim>\<open>armed\<close> is; when \<^verbatim>\<open>connected\<close> is false it does
  nothing. In general \<^verbatim>\<open>set_relay\<close> sends its two bytes exactly when \<^verbatim>\<open>connected\<close> is
  true and, for switching on, \<^verbatim>\<open>armed\<close> is true as well.
\<close>

theorem relay_off_needs_connection:
  "set_relay s relay False raised =
     (if connected s
      then s\<lparr>trace := trace s @ [SocketSendall [relay_value relay, 0] raised]\<rparr>
      else s)
   \<and> set_relay s relay state raised =
     (if connected s \<and> (armed s \<or> \<not> state)
      then s\<lparr>trace := trace s @ [SocketSendall [relay_value relay, if state then 1 else 0] raised]\<rparr>
      else s)"
  by (simp add: set_relay_def gate_defs call_def)

theorem relay_off_needs_connection_witness:
  "set_relay (init\<lparr>connected := True\<rparr>) CLAW_FRONT False True =
     \<lparr>last_msg_time = None, connected = True, armed = False, trace = [SocketSendall [4, 0] True]\<rparr>"
  using relay_off_needs_connection
    [where s = "init\<lparr>connected := True\<rparr>" and relay = CLAW_FRONT and raised = True,
      THEN conjunct1]
  by (simp add: init_def)

lemma turn_off_relays_loop_trace:
  "turn_off_relays_loop s raised rs =
     (if connected s
      then s\<lparr>trace := trace s @ map (\<lambda>r. SocketSendall [relay_value r, 0] (raised r)) rs\<rparr>
      else s)"
  by (induction s raised rs rule: turn_off_relays_loop.induct)
     (auto simp: set_relay_def gate_defs call_def)

lemma turn_off_relays_loop_foldl:
  "turn_off_relays_loop s raised rs = foldl (\<lambda>s r. set_relay s r False (raised r)) s rs"
  by (induction s raised rs rule: turn_off_relays_loop.induct) auto

lemma all_relays_UNIV: "set all_relays = UNIV"
proof -
  have "r \<in> set all_relays" for r
    by (cases r) (simp_all add: all_relays_def)
  then show ?thesis by blast
qed

text \<open>
  C6. \<^verbatim>\<open>disarm\<close> runs \<^verbatim>\<open>set_relay(relay, False)\<close> over all six relays, whatever the state,
  and then sends the disarm request. The events it adds to the trace are the relay-off
  sends (one per relay when connected, none otherwise) followed by the disarm request,
  which is last.
\<close>

theorem disarm_relays_off_first:
  "disarm s raised =
     call ArducopterDisarm (foldl (\<lambda>s r. set_relay s r False (raised r)) s all_relays)
   \<and> set all_relays = UNIV
   \<and> trace (disarm s raised) =
       trace s
       @ (if connected s
          then map (\<lambda>r. SocketSendall [relay_value r, 0] (raised r)) all_relays else [])
       @ [ArducopterDisarm]"
  by (simp add: disarm_def turn_off_relays_def turn_off_relays_loop_trace call_def
      turn_off_relays_loop_foldl [symmetric] all_relays_UNIV)

theorem disarm_relays_off_first_witness:
  "trace (disarm (init\<lparr>connected := True, armed := True\<rparr>) (\<lambda>r. r = MAGNET)) =
     [SocketSendall [1, 0] False, SocketSendall [4, 0] False, SocketSendall [2, 0] False,
      SocketSendall [3, 0] False, SocketSendall [0, 0] True, SocketSendall [5, 0] False,
      ArducopterDisarm]"
  using disarm_relays_off_first
    [where s = "init\<lparr>connected := True, armed := True\<rparr>" and raised = "\<lambda>r. r = MAGNET",
      THEN conjunct2, THEN conjunct2]
  by (simp add: init_def all_relays_def)

subsection \<open>Validation of RC commands\<close>

lemma rc_loop_invalid:
  "(c, p) \<in> set items \<Longrightarrow> c < 1 \<or> c > 18 \<or> p < 1100 \<or> p > 1900
   \<Longrightarrow> \<exists>r. rc_loop vs items = Inl (ValueError r)"
  by (induction vs items rule: rc_loop.induct) auto

text \<open>
  C4, as stated, fails: the gate is the first statement of \<^verbatim>\<open>set_rc_input_pwms\<close>. In the
  initial state a mapping with channel 0 and pwm 5 is accepted without an error.
\<close>

theorem invalid_pwms_accepted_when_disconnected:
  "set_rc_input_pwms init [(0, 5)] = Inr init"
  by (simp add: set_rc_input_pwms_def gate_defs init_def)

text \<open>
  C4, amended. For a mapping with an entry whose channel id is outside [1,18] or whose pwm
  is outside [1100,1900]: when connected and armed the call raises a ValueError and sends
  nothing; when not connected or not armed it returns normally, unvalidated, and sends
  nothing.
\<close>

theorem rc_pwms_validated_behind_gate:
  assumes "(channel_id, pwm) \<in> set pwms"
    and "channel_id < 1 \<or> channel_id > 18 \<or> pwm < 1100 \<or> pwm > 1900"
  shows "if connected s \<and> armed s
         then (\<exists>r. set_rc_input_pwms s pwms = Inl (ValueError r, s))
         else set_rc_input_pwms s pwms = Inr s"
  using rc_loop_invalid [OF assms, of "replicate 18 65535"]
  by (auto simp: set_rc_input_pwms_def gate_defs)

theorem rc_pwms_validated_behind_gate_witness:
  "(3::int, 2000::int) \<in> set [(1, 1500), (3, 2000)]
   \<and> ((3::int) < 1 \<or> (3::int) > 18 \<or> (2000::int) < 1100 \<or> (2000::int) > 1900)
   \<and> (\<exists>r. set_rc_input_pwms (init\<lparr>connected := True, armed := True\<rparr>) [(1, 1500), (3, 2000)]
            = Inl (ValueError r, init\<lparr>connected := True, armed := True\<rparr>))"
  using rc_pwms_validated_behind_gate
    [of 3 2000 "[(1, 1500), (3, 2000)]" "init\<lparr>connected := True, armed := True\<rparr>"]
  by (simp add: init_def)

lemma inputs_loop_invalid:
  "(c, v) \<in> set items \<Longrightarrow> \<not> (-1 \<le> v \<and> v \<le> 1)
   \<Longrightarrow> \<exists>w. \<not> (-1 \<le> w \<and> w \<le> 1) \<and> inputs_loop pwms items = Inl (ValueError (InputOutOfRange w))"
  by (induction pwms items rule: inputs_loop.induct) (auto simp: input_pwm_def split: sum.splits)

text \<open>
  C9. When some value of the mapping given to \<^verbatim>\<open>set_rc_inputs\<close> is outside [-1,1], the
  call raises a ValueError for a value outside [-1,1] and leaves the state, the trace
  included, as it was: nothing is sent, in any connection or arming state.
\<close>

theorem set_rc_inputs_rejects_whole_call:
  assumes "(channel, val) \<in> set values" and "val < -1 \<or> val > 1"
  shows "\<exists>w. (w < -1 \<or> w > 1) \<and> set_rc_inputs s values = Inl (ValueError (InputOutOfRange w), s)"
proof -
  from assms(2) have "\<not> (-1 \<le> val \<and> val \<le> 1)" by auto
  from inputs_loop_invalid [OF assms(1) this, of "[]"] show ?thesis
    by (auto simp: set_rc_inputs_def)
qed

theorem set_rc_inputs_rejects_whole_call_witness:
  "(YAW, 3/2::real) \<in> set [(THROTTLE, 1/2), (YAW, 3/2)] \<and> ((3/2::real) < -1 \<or> (3/2::real) > 1)
   \<and> (\<exists>w. (w < -1 \<or> w > 1)
        \<and> set_rc_inputs (init\<lparr>connected := True, armed := True\<rparr>) [(THROTTLE, 1/2), (YAW, 3/2)]
            = Inl (ValueError (InputOutOfRange w), init\<lparr>connected := True, armed := True\<rparr>))"
  using set_rc_inputs_rejects_whole_call
    [of YAW "3/2" "[(THROTTLE, 1/2), (YAW, 3/2)]" "init\<lparr>connected := True, armed := True\<rparr>"]
  by simp

subsection \<open>Double arithmetic\<close>

lemma pow2_powr: "pow2 e = 2 powr (of_int e)"
  by (simp add: pow2_def powr_real_of_int inverse_eq_divide)

lemma pow2_pos: "0 < pow2 e"
  by (simp add: pow2_powr)

lemma pow2_add: "pow2 (a + b) = pow2 a * pow2 b"
  by (simp add: pow2_powr powr_add)

lemma pow2_le_iff: "pow2 a \<le> pow2 b \<longleftrightarrow> a \<le> b"
  by (simp add: pow2_powr)

lemma pow2_less_iff: "pow2 a < pow2 b \<longleftrightarrow> a < b"
  by (simp add: pow2_powr)

lemma pow2_nonneg_int: "0 \<le> e \<Longrightarrow> pow2 e = of_int (2 ^ nat e)"
  by (simp add: pow2_def)

lemma ilog2_bounds:
  assumes "0 < x"
  shows "pow2 (ilog2 x) \<le> x \<and> x < pow2 (ilog2 x + 1)"
proof (cases "1 \<le> x")
  case True
  define n where "n = \<lfloor>x\<rfloor>"
  from True have n: "0 < n" unfolding n_def by linarith
  from bitlen_bounds [OF n] have lo: "2 ^ nat (bitlen n - 1) \<le> n" and hi: "n + 1 \<le> 2 ^ nat (bitlen n)"
    by auto
  from n have b: "1 \<le> bitlen n"
    using bitlen_eq_zero_iff [of n] bitlen_nonneg [of n] by linarith
  have e: "ilog2 x = bitlen n - 1"
    using True by (simp add: ilog2_def n_def)
  have "pow2 (bitlen n - 1) = of_int (2 ^ nat (bitlen n - 1))"
    using b by (simp add: pow2_nonneg_int)
  also have "\<dots> \<le> of_int n"
    using lo by (simp only: of_int_le_iff)
  also have "\<dots> \<le> x"
    unfolding n_def by linarith
  finally have 1: "pow2 (ilog2 x) \<le> x"
    by (simp add: e)
  have "x < of_int (n + 1)"
    unfolding n_def by linarith
  also have "\<dots> \<le> of_int (2 ^ nat (bitlen n))"
    using hi by (simp only: of_int_le_iff)
  also have "\<dots> = pow2 (bitlen n)"
    using b by (simp add: pow2_nonneg_int)
  finally have 2: "x < pow2 (ilog2 x + 1)"
    by (simp add: e)
  from 1 2 show ?thesis ..
next
  case False
  define m where "m = \<lceil>1 / x\<rceil> - 1"
  from False assms have y: "1 < 1 / x" by simp
  then have m: "0 < m" unfolding m_def by linarith
  have my: "of_int m < 1 / x" "1 / x \<le> of_int (m + 1)"
    unfolding m_def by linarith+
  from bitlen_bounds [OF m] have lo: "2 ^ nat (bitlen m - 1) \<le> m" and hi: "m + 1 \<le> 2 ^ nat (bitlen m)"
    by auto
  from m have b: "1 \<le> bitlen m"
    using bitlen_eq_zero_iff [of m] bitlen_nonneg [of m] by linarith
  have e: "ilog2 x = - bitlen m"
    using False by (simp add: ilog2_def m_def)
  have "1 / x \<le> of_int (2 ^ nat (bitlen m))"
    using my(2) hi by (meson of_int_le_iff order_trans)
  then have "1 / x \<le> 2 ^ nat (bitlen m)" by simp
  with assms have "1 / 2 ^ nat (bitlen m) \<le> x"
    by (simp add: field_simps)
  then have 1: "pow2 (ilog2 x) \<le> x"
    using b by (simp add: e pow2_def)
  have "of_int (2 ^ nat (bitlen m - 1)) < 1 / x"
    using my(1) lo by (meson of_int_le_iff le_less_trans)
  then have "2 ^ nat (bitlen m - 1) < 1 / x" by simp
  with assms have x: "x < 1 / 2 ^ nat (bitlen m - 1)"
    by (simp add: field_simps)
  have "pow2 (- bitlen m + 1) = 1 / 2 ^ nat (bitlen m - 1)"
    using b by (auto simp: pow2_def)
  with x have 2: "x < pow2 (ilog2 x + 1)"
    by (simp add: e)
  from 1 2 show ?thesis ..
qed

lemma ilog2_mono:
  assumes "0 < x" "x \<le> y"
  shows "ilog2 x \<le> ilog2 y"
proof -
  from ilog2_bounds [of x] ilog2_bounds [of y] assms
  have "pow2 (ilog2 x) < pow2 (ilog2 y + 1)" by linarith
  then show ?thesis by (simp add: pow2_less_iff)
qed

lemma round_half_even_floor: "\<lfloor>x\<rfloor> \<le> round_half_even x \<and> round_half_even x \<le> \<lfloor>x\<rfloor> + 1"
  by (simp add: round_half_even_def Let_def)

lemma round_half_even_mono:
  assumes "x \<le> y"
  shows "round_half_even x \<le> round_half_even y"
proof (cases "\<lfloor>x\<rfloor> = \<lfloor>y\<rfloor>")
  case True
  with assms show ?thesis
    by (simp add: round_half_even_def Let_def)
next
  case False
  with assms have "\<lfloor>x\<rfloor> < \<lfloor>y\<rfloor>"
    using floor_mono [of x y] by linarith
  with round_half_even_floor [of x] round_half_even_floor [of y] show ?thesis
    by linarith
qed

lemma round_half_even_of_int: "round_half_even (of_int n) = n"
  by (simp add: round_half_even_def)

lemma round_half_even_minus: "round_half_even (- x) = - round_half_even x"
proof (cases "x = of_int \<lfloor>x\<rfloor>")
  case True
  then obtain n where "x = of_int n" ..
  then have "- x = of_int (- n)" by simp
  with \<open>x = of_int n\<close> show ?thesis
    by (simp only: round_half_even_of_int)
next
  case False
  then have f: "\<lfloor>- x\<rfloor> = - \<lfloor>x\<rfloor> - 1"
    by linarith
  show ?thesis
    unfolding round_half_even_def Let_def f by auto
qed

text \<open>Rounding on a fixed grid of multiples of \<open>2^q\<close>.\<close>

lemma grid_mono:
  "x \<le> y \<Longrightarrow> of_int (round_half_even (x / pow2 q)) * pow2 q \<le> of_int (round_half_even (y / pow2 q)) * pow2 q"
  using pow2_pos [of q] round_half_even_mono [of "x / pow2 q" "y / pow2 q"]
  by (simp add: divide_right_mono)

lemma grid_exact:
  assumes "q \<le> e"
  shows "of_int (round_half_even (pow2 e / pow2 q)) * pow2 q = pow2 e"
proof -
  have "pow2 e = pow2 (e - q) * pow2 q"
    using pow2_add [of "e - q" q] by simp
  moreover have "pow2 (e - q) = of_int (2 ^ nat (e - q))"
    using assms by (simp add: pow2_nonneg_int)
  ultimately have "pow2 e / pow2 q = of_int (2 ^ nat (e - q))"
    using pow2_pos [of q] by simp
  then have "round_half_even (pow2 e / pow2 q) = 2 ^ nat (e - q)"
    by (simp only: round_half_even_of_int)
  with \<open>pow2 e = pow2 (e - q) * pow2 q\<close> \<open>pow2 (e - q) = of_int (2 ^ nat (e - q))\<close>
  show ?thesis by simp
qed

lemma double_round_pos_mono:
  assumes "0 < x" "x \<le> y"
  shows "double_round x \<le> double_round y"
proof -
  define qx where "qx = max (ilog2 x - 52) (- 1074)"
  define qy where "qy = max (ilog2 y - 52) (- 1074)"
  from assms have y: "0 < y" by simp
  have dx: "double_round x = of_int (round_half_even (x / pow2 qx)) * pow2 qx"
    using assms(1) by (simp add: double_round_def qx_def Let_def)
  have dy: "double_round y = of_int (round_half_even (y / pow2 qy)) * pow2 qy"
    using y by (simp add: double_round_def qy_def Let_def)
  have le: "ilog2 x \<le> ilog2 y"
    using ilog2_mono [OF assms] .
  show ?thesis
  proof (cases "qx = qy")
    case True
    with grid_mono [OF assms(2), of qy] dx dy show ?thesis by simp
  next
    case False
    with le have lt: "qx < qy" and qy: "qy = ilog2 y - 52" and ex: "ilog2 x < ilog2 y"
      unfolding qx_def qy_def by auto
    from ilog2_bounds [OF assms(1)] ex have "x \<le> pow2 (ilog2 y)"
      using pow2_le_iff [of "ilog2 x + 1" "ilog2 y"] by linarith
    from grid_mono [OF this, of qx] have "double_round x \<le> pow2 (ilog2 y)"
      using grid_exact [of qx "ilog2 y"] lt qy dx by simp
    moreover from ilog2_bounds [OF y] have "pow2 (ilog2 y) \<le> y" ..
    from grid_mono [OF this, of qy] have "pow2 (ilog2 y) \<le> double_round y"
      using grid_exact [of qy "ilog2 y"] qy dy by simp
    ultimately show ?thesis by linarith
  qed
qed

lemma double_round_minus: "double_round (- x) = - double_round x"
  by (simp add: double_round_def Let_def round_half_even_minus)

lemma double_round_nonneg:
  assumes "0 \<le> x"
  shows "0 \<le> double_round x"
proof (cases "x = 0")
  case True
  then show ?thesis by (simp add: double_round_def)
next
  case False
  define q where "q = max (ilog2 \<bar>x\<bar> - 52) (- 1074)"
  from assms pow2_pos [of q] have "0 \<le> x / pow2 q" by simp
  from round_half_even_mono [OF this] have "0 \<le> round_half_even (x / pow2 q)"
    using round_half_even_of_int [of 0] by simp
  with False pow2_pos [of q] show ?thesis
    by (simp add: double_round_def Let_def q_def)
qed

lemma double_round_mono:
  assumes "x \<le> y"
  shows "double_round x \<le> double_round y"
proof -
  consider "0 < x" | "y < 0" | "x \<le> 0" "0 \<le> y"
    using assms by linarith
  then show ?thesis
  proof cases
    case 1
    from double_round_pos_mono [OF this assms] show ?thesis .
  next
    case 2
    with assms have "0 < - y" "- y \<le> - x" by simp_all
    from double_round_pos_mono [OF this] show ?thesis
      by (simp add: double_round_minus)
  next
    case 3
    from 3(1) have "0 \<le> double_round (- x)"
      by (intro double_round_nonneg) simp
    with double_round_nonneg [OF 3(2)] show ?thesis
      by (simp add: double_round_minus)
  qed
qed

lemma double_round_values:
  "double_round 400 = 400" "double_round 1100 = 1100" "double_round 1500 = 1500"
  "double_round 1900 = 1900"
  by (simp_all add: double_round_def ilog2_def pow2_def round_half_even_def compute_bitlen)

subsection \<open>The axis mapping\<close>

lemma py_round_mono: "x \<le> y \<Longrightarrow> py_round x \<le> py_round y"
  by (simp add: py_round_def round_half_even_mono)

lemma py_round_of_int: "py_round (of_int n) = n"
  by (simp add: py_round_def round_half_even_of_int)

text \<open>The double that \<^verbatim>\<open>val * 400 + 1500\<close> evaluates to.\<close>

lemma scaled_mono:
  assumes "v \<le> w"
  shows "double_add (double_mul v 400) 1500 \<le> double_add (double_mul w 400) 1500"
proof -
  from assms have "v * 400 \<le> w * 400" by simp
  from double_round_mono [OF this] have "double_mul v 400 + 1500 \<le> double_mul w 400 + 1500"
    by (simp add: double_mul_def)
  from double_round_mono [OF this] show ?thesis
    by (simp add: double_add_def)
qed

lemma scaled_ends:
  "double_add (double_mul (-1) 400) 1500 = 1100"
  "double_add (double_mul 0 400) 1500 = 1500"
  "double_add (double_mul 1 400) 1500 = 1900"
proof -
  have m: "double_mul (-1) 400 = - 400" "double_mul 0 400 = 0" "double_mul 1 400 = 400"
    using double_round_minus [of 400]
    by (simp_all add: double_mul_def double_round_values) (simp add: double_round_def)
  show "double_add (double_mul (-1) 400) 1500 = 1100"
    "double_add (double_mul 0 400) 1500 = 1500"
    "double_add (double_mul 1 400) 1500 = 1900"
    by (simp_all add: m double_add_def double_round_values)
qed

lemma py_round_in_range:
  assumes "-1 \<le> v" "v \<le> 1"
  shows "1100 \<le> py_round (double_add (double_mul v 400) 1500)
    \<and> py_round (double_add (double_mul v 400) 1500) \<le> 1900"
proof -
  from scaled_mono [OF assms(1)] scaled_mono [OF assms(2)]
  have "of_int 1100 \<le> double_add (double_mul v 400) 1500"
    "double_add (double_mul v 400) 1500 \<le> of_int 1900"
    by (simp_all add: scaled_ends)
  from py_round_mono [OF this(1)] py_round_mono [OF this(2)] show ?thesis
    by (simp only: py_round_of_int)
qed

lemma input_pwm_valid:
  assumes "-1 \<le> v" "v \<le> 1"
  shows "input_pwm v = Inr (py_round (double_add (double_mul v 400) 1500))"
  using assms py_round_in_range [OF assms] by (simp add: input_pwm_def)

lemma input_pwm_ends:
  "input_pwm (-1) = Inr 1100" "input_pwm 0 = Inr 1500" "input_pwm 1 = Inr 1900"
proof -
  have "py_round (of_int 1100) = 1100" "py_round (of_int 1500) = 1500"
    "py_round (of_int 1900) = 1900"
    by (simp_all only: py_round_of_int)
  then show "input_pwm (-1) = Inr 1100" "input_pwm 0 = Inr 1500" "input_pwm 1 = Inr 1900"
    by (simp_all add: input_pwm_def scaled_ends)
qed

lemma channel_value_range: "1 \<le> channel_value c \<and> channel_value c \<le> 11"
  by (cases c) simp_all

text \<open>
  C5. The mapping of one axis value inside \<^verbatim>\<open>set_rc_inputs\<close>, computed in doubles as the
  source computes it. For \<open>v\<close> in [-1,1] it returns \<^verbatim>\<open>round(v*400+1500)\<close> clamped to
  [1100,1900]; the result lies in [1100,1900] (and the clamp never acts). It is
  non-decreasing in \<open>v\<close>, gives 1100, 1500 and 1900 at -1, 0 and 1, and raises a
  ValueError for every value outside [-1,1]. \<^verbatim>\<open>set_rc_inputs\<close> on a one-entry mapping
  raises that error, or passes the result on as the slot of the entry's channel.
\<close>

theorem axis_to_pwm_mapping:
  "(-1 \<le> v \<and> v \<le> 1 \<longrightarrow>
      input_pwm v = Inr (min (max (py_round (double_add (double_mul v 400) 1500)) 1100) 1900)
      \<and> input_pwm v = Inr (py_round (double_add (double_mul v 400) 1500))
      \<and> (\<exists>p. input_pwm v = Inr p \<and> 1100 \<le> p \<and> p \<le> 1900))
   \<and> (-1 \<le> v \<and> v \<le> w \<and> w \<le> 1 \<longrightarrow> (\<exists>p q. input_pwm v = Inr p \<and> input_pwm w = Inr q \<and> p \<le> q))
   \<and> input_pwm (-1) = Inr 1100 \<and> input_pwm 0 = Inr 1500 \<and> input_pwm 1 = Inr 1900
   \<and> (u < -1 \<or> u > 1 \<longrightarrow> input_pwm u = Inl (ValueError (InputOutOfRange u)))
   \<and> set_rc_inputs s [(channel, x)] =
       (case input_pwm x of
          Inl e \<Rightarrow> Inl (e, s)
        | Inr pwm \<Rightarrow>
            if connected s \<and> armed s
            then Inr (call (RcChannelsOverrideSend
                   ((replicate 18 65535)[nat (channel_value channel - 1) := pwm])) s)
            else Inr s)"
proof -
  have a: "-1 \<le> v \<and> v \<le> 1 \<longrightarrow>
      input_pwm v = Inr (min (max (py_round (double_add (double_mul v 400) 1500)) 1100) 1900)
      \<and> input_pwm v = Inr (py_round (double_add (double_mul v 400) 1500))
      \<and> (\<exists>p. input_pwm v = Inr p \<and> 1100 \<le> p \<and> p \<le> 1900)"
  proof
    assume v: "-1 \<le> v \<and> v \<le> 1"
    then have 1: "input_pwm v = Inr (min (max (py_round (double_add (double_mul v 400) 1500)) 1100) 1900)"
      by (simp add: input_pwm_def)
    from v have 2: "input_pwm v = Inr (py_round (double_add (double_mul v 400) 1500))"
      by (simp add: input_pwm_valid)
    from 2 py_round_in_range [of v] v
    have 3: "\<exists>p. input_pwm v = Inr p \<and> 1100 \<le> p \<and> p \<le> 1900"
      by simp
    from 1 2 3
    show "input_pwm v = Inr (min (max (py_round (double_add (double_mul v 400) 1500)) 1100) 1900)
      \<and> input_pwm v = Inr (py_round (double_add (double_mul v 400) 1500))
      \<and> (\<exists>p. input_pwm v = Inr p \<and> 1100 \<le> p \<and> p \<le> 1900)"
      by blast
  qed
  have b: "-1 \<le> v \<and> v \<le> w \<and> w \<le> 1 \<longrightarrow> (\<exists>p q. input_pwm v = Inr p \<and> input_pwm w = Inr q \<and> p \<le> q)"
  proof
    assume h: "-1 \<le> v \<and> v \<le> w \<and> w \<le> 1"
    then have "input_pwm v = Inr (py_round (double_add (double_mul v 400) 1500))"
      "input_pwm w = Inr (py_round (double_add (double_mul w 400) 1500))"
      by (simp_all add: input_pwm_valid)
    moreover from h have "py_round (double_add (double_mul v 400) 1500)
        \<le> py_round (double_add (double_mul w 400) 1500)"
      by (intro py_round_mono scaled_mono) simp
    ultimately show "\<exists>p q. input_pwm v = Inr p \<and> input_pwm w = Inr q \<and> p \<le> q"
      by simp
  qed
  have d: "u < -1 \<or> u > 1 \<longrightarrow> input_pwm u = Inl (ValueError (InputOutOfRange u))"
    by (auto simp: input_pwm_def)
  have e: "set_rc_inputs s [(channel, x)] =
       (case input_pwm x of
          Inl e \<Rightarrow> Inl (e, s)
        | Inr pwm \<Rightarrow>
            if connected s \<and> armed s
            then Inr (call (RcChannelsOverrideSend
                   ((replicate 18 65535)[nat (channel_value channel - 1) := pwm])) s)
            else Inr s)"
  proof (cases "-1 \<le> x \<and> x \<le> 1")
    case True
    with py_round_in_range [of x] channel_value_range [of channel] show ?thesis
      by (simp add: set_rc_inputs_def set_rc_input_pwms_def gate_defs input_pwm_valid)
  next
    case False
    then show ?thesis
      by (simp add: set_rc_inputs_def input_pwm_def)
  qed
  from a b input_pwm_ends d e show ?thesis by blast
qed

text \<open>
  The witness takes the doubles nearest to 0.00125 and 0.00375. In doubles their
  products with 400 are 1/2 and 3/2 exactly, the sums are the ties 1500.5 and 1501.5, and
  the results are the even neighbours 1500 and 1502.
\<close>

theorem axis_to_pwm_mapping_witness:
  "is_double (5764607523034235 / 4611686018427387904)
   \<and> is_double (1080863910568919 / 288230376151711744)
   \<and> (-1::real) \<le> 5764607523034235 / 4611686018427387904
   \<and> (5764607523034235 / 4611686018427387904 ::real) \<le> 1080863910568919 / 288230376151711744
   \<and> (1080863910568919 / 288230376151711744 ::real) \<le> 1
   \<and> input_pwm (5764607523034235 / 4611686018427387904) = Inr 1500
   \<and> input_pwm (1080863910568919 / 288230376151711744) = Inr 1502
   \<and> (3/2::real) > 1 \<and> input_pwm (3/2) = Inl (ValueError (InputOutOfRange (3/2)))
   \<and> set_rc_inputs (init\<lparr>connected := True, armed := True\<rparr>)
        [(THROTTLE, 5764607523034235 / 4611686018427387904)] =
       Inr \<lparr>last_msg_time = None, connected = True, armed = True,
            trace = [RcChannelsOverrideSend
              [65535, 65535, 1500, 65535, 65535, 65535, 65535, 65535, 65535,
               65535, 65535, 65535, 65535, 65535, 65535, 65535, 65535, 65535]]\<rparr>"
proof -
  let ?v = "5764607523034235 / 4611686018427387904 :: real"
  let ?w = "1080863910568919 / 288230376151711744 :: real"
  have dv: "is_double ?v" and dw: "is_double ?w"
    by (simp_all add: is_double_def double_round_def ilog2_def pow2_def round_half_even_def
        compute_bitlen)
  have mv: "double_mul ?v 400 = 1/2" and mw: "double_mul ?w 400 = 3/2"
    by (simp_all add: double_mul_def double_round_def ilog2_def pow2_def round_half_even_def
        compute_bitlen)
  have av: "double_add (1/2) 1500 = 3001/2" and aw: "double_add (3/2) 1500 = 3003/2"
    by (simp_all add: double_add_def double_round_def ilog2_def pow2_def round_half_even_def
        compute_bitlen)
  have rv: "py_round (3001/2) = 1500" and rw: "py_round (3003/2) = 1502"
    by (simp_all add: py_round_def round_half_even_def)
  have pv: "input_pwm ?v = Inr 1500" and pw: "input_pwm ?w = Inr 1502"
    by (simp_all add: input_pwm_def mv mw av aw rv rw)
  from axis_to_pwm_mapping
    [of ?v ?w "3/2" "init\<lparr>connected := True, armed := True\<rparr>" THROTTLE ?v]
  have "input_pwm (3/2) = Inl (ValueError (InputOutOfRange (3/2)))"
    and "set_rc_inputs (init\<lparr>connected := True, armed := True\<rparr>) [(THROTTLE, ?v)] =
       Inr \<lparr>last_msg_time = None, connected = True, armed = True,
            trace = [RcChannelsOverrideSend
              [65535, 65535, 1500, 65535, 65535, 65535, 65535, 65535, 65535,
               65535, 65535, 65535, 65535, 65535, 65535, 65535, 65535, 65535]]\<rparr>"
    by (simp_all add: pv init_def call_def numeral_eq_Suc)
  with dv dw pv pw show ?thesis by simp
qed

subsection \<open>The override packet\<close>

lemma rc_loop_length: "rc_loop vs items = Inr vs' \<Longrightarrow> length vs' = length vs"
  by (induction vs items rule: rc_loop.induct) (auto split: if_splits)

lemma rc_loop_slots:
  "rc_loop vs items = Inr vs' \<Longrightarrow> distinct (map fst items) \<Longrightarrow> length vs = 18
   \<Longrightarrow> 1 \<le> k \<Longrightarrow> k \<le> 18
   \<Longrightarrow> vs' ! nat (k - 1) = (case map_of items k of None \<Rightarrow> vs ! nat (k - 1) | Some p \<Rightarrow> p)"
proof (induction vs items rule: rc_loop.induct)
  case (1 vs)
  then show ?case by simp
next
  case (2 vs channel_id pwm items)
  from "2.prems"(1) have ok: "\<not> (channel_id < 1 \<or> channel_id > 18)" "\<not> \<not> (1100 \<le> pwm \<and> pwm \<le> 1900)"
    and r: "rc_loop (vs[nat (channel_id - 1) := pwm]) items = Inr vs'"
    by (auto split: if_splits)
  from "2.prems"(2) have d: "distinct (map fst items)" and n: "map_of items channel_id = None"
    by (auto simp: map_of_eq_None_iff)
  have ih: "vs' ! nat (k - 1) =
      (case map_of items k of None \<Rightarrow> vs[nat (channel_id - 1) := pwm] ! nat (k - 1) | Some p \<Rightarrow> p)"
    using "2.IH" [OF ok r d _ "2.prems"(4) "2.prems"(5)] "2.prems"(3) by simp
  show ?case
  proof (cases "k = channel_id")
    case True
    with ih n "2.prems"(3,4,5) show ?thesis by simp
  next
    case False
    with ok "2.prems"(4) have "nat (channel_id - 1) \<noteq> nat (k - 1)" by auto
    with ih False show ?thesis by (simp split: option.splits)
  qed
qed

text \<open>
  C7. A call of \<^verbatim>\<open>set_rc_input_pwms\<close> that returns (on a mapping, whose keys are
  distinct) sends nothing when the gate is closed, and otherwise exactly one override
  packet: it has 18 slots, slot \<open>k\<close> (counted from 1) holds the pwm the mapping gives
  for channel \<open>k\<close>, and 65535 when \<open>k\<close> is not a key; every key is in [1,18] with a pwm
  in [1100,1900].
\<close>

theorem rc_override_packet_slots:
  assumes "set_rc_input_pwms s pwms = Inr s'" and "distinct (map fst pwms)"
  shows "if connected s \<and> armed s
         then (\<exists>vs. trace s' = trace s @ [RcChannelsOverrideSend vs] \<and> length vs = 18
                \<and> (\<forall>k. 1 \<le> k \<and> k \<le> 18 \<longrightarrow>
                      vs ! nat (k - 1) = (case map_of pwms k of None \<Rightarrow> 65535 | Some p \<Rightarrow> p))
                \<and> (\<forall>k p. map_of pwms k = Some p \<longrightarrow> 1 \<le> k \<and> k \<le> 18 \<and> 1100 \<le> p \<and> p \<le> 1900))
         else s' = s"
proof (cases "connected s \<and> armed s")
  case False
  with assms(1) show ?thesis
    by (auto simp: set_rc_input_pwms_def gate_defs)
next
  case True
  with assms(1) obtain vs where l: "rc_loop (replicate 18 65535) pwms = Inr vs"
    and s': "s' = call (RcChannelsOverrideSend vs) s"
    by (auto simp: set_rc_input_pwms_def gate_defs split: sum.splits)
  have len: "length vs = 18"
    using rc_loop_length [OF l] by simp
  have slots: "vs ! nat (k - 1) = (case map_of pwms k of None \<Rightarrow> 65535 | Some p \<Rightarrow> p)"
    if "1 \<le> k" "k \<le> 18" for k
    using rc_loop_slots [OF l assms(2) _ that] that by (simp split: option.splits)
  have keys: "1 \<le> k \<and> k \<le> 18 \<and> 1100 \<le> p \<and> p \<le> 1900" if "map_of pwms k = Some p" for k p
  proof (rule ccontr)
    assume "\<not> ?thesis"
    then have "k < 1 \<or> k > 18 \<or> p < 1100 \<or> p > 1900" by auto
    from rc_loop_invalid [OF map_of_SomeD [OF that] this, of "replicate 18 65535"] l
    show False by simp
  qed
  from True s' len slots keys show ?thesis
    by (simp add: call_def)
qed

theorem rc_override_packet_slots_witness:
  "set_rc_input_pwms (init\<lparr>connected := True, armed := True\<rparr>) [(3, 1900), (5, 1200)] =
     Inr \<lparr>last_msg_time = None, connected = True, armed = True,
          trace = [RcChannelsOverrideSend
            [65535, 65535, 1900, 65535, 1200, 65535, 65535, 65535, 65535,
             65535, 65535, 65535, 65535, 65535, 65535, 65535, 65535, 65535]]\<rparr>
   \<and> distinct (map fst [(3::int, 1900::int), (5, 1200)])
   \<and> (\<exists>vs. trace \<lparr>last_msg_time = None, connected = True, armed = True,
          trace = [RcChannelsOverrideSend
            [65535, 65535, 1900, 65535, 1200, 65535, 65535, 65535, 65535,
             65535, 65535, 65535, 65535, 65535, 65535, 65535, 65535, 65535]]\<rparr>
            = trace (init\<lparr>connected := True, armed := True\<rparr>) @ [RcChannelsOverrideSend vs]
          \<and> length vs = 18 \<and> vs ! nat (3 - 1) = 1900 \<and> vs ! nat (4 - 1) = 65535)"
proof -
  let ?s = "init\<lparr>connected := True, armed := True\<rparr>"
  let ?s' = "\<lparr>last_msg_time = None, connected = True, armed = True,
          trace = [RcChannelsOverrideSend
            [65535, 65535, 1900, 65535, 1200, 65535, 65535, 65535, 65535,
             65535, 65535, 65535, 65535, 65535, 65535, 65535, 65535, 65535]]\<rparr>"
  have h1: "set_rc_input_pwms ?s [(3, 1900), (5, 1200)] = Inr ?s'"
    by (simp add: set_rc_input_pwms_def gate_defs init_def call_def numeral_eq_Suc)
  have h2: "distinct (map fst [(3::int, 1900::int), (5, 1200)])"
    by simp
  have c: "connected ?s \<and> armed ?s"
    by simp
  from rc_override_packet_slots [OF h1 h2] c obtain vs
    where t: "trace ?s' = trace ?s @ [RcChannelsOverrideSend vs]" and l: "length vs = 18"
      and k: "\<forall>k. 1 \<le> k \<and> k \<le> 18 \<longrightarrow>
               vs ! nat (k - 1) = (case map_of [(3, 1900), (5, 1200)] k of None \<Rightarrow> 65535 | Some p \<Rightarrow> p)"
    by auto
  from k [rule_format, of 3] k [rule_format, of 4]
  have "vs ! nat (3 - 1) = 1900" "vs ! nat (4 - 1) = 65535"
    by simp_all
  with h1 h2 t l show ?thesis by blast
qed

subsection \<open>Events of the polling loop\<close>

lemma update_emits:
  assumes "update s msg now = Inr s'"
  shows "trace s' = trace s
           @ (if \<not> connected s \<and> connected s' then [Emit connected_signal] else [])
           @ (if \<not> armed s \<and> armed s' then [Emit armed_signal] else [])
           @ (if armed s \<and> \<not> armed s' then [Emit disarmed_signal] else [])
           @ (if connected s \<and> \<not> connected s' then [Emit disconnected_signal] else [])"
proof (cases msg)
  case None
  with assms show ?thesis
    by (auto simp: update_silence split: if_splits option.splits)
next
  case (Some m)
  with assms show ?thesis
    by (auto simp: update_heartbeat)
qed

lemma rises_Cons: "rises f (a # visited s ins) = (if \<not> f a \<and> f s then 1 else 0) + rises f (visited s ins)"
  using visited_Cons [of s ins] by auto

lemma falls_Cons: "falls f (a # visited s ins) = (if f a \<and> \<not> f s then 1 else 0) + falls f (visited s ins)"
  using visited_Cons [of s ins] by auto

lemma visited_counts:
  "count_list (trace (last (visited s ins))) (Emit connected_signal)
     = count_list (trace s) (Emit connected_signal) + rises connected (visited s ins)
   \<and> count_list (trace (last (visited s ins))) (Emit disconnected_signal)
     = count_list (trace s) (Emit disconnected_signal) + falls connected (visited s ins)
   \<and> count_list (trace (last (visited s ins))) (Emit armed_signal)
     = count_list (trace s) (Emit armed_signal) + rises armed (visited s ins)
   \<and> count_list (trace (last (visited s ins))) (Emit disarmed_signal)
     = count_list (trace s) (Emit disarmed_signal) + falls armed (visited s ins)"
proof (induction s ins rule: visited.induct)
  case (1 s)
  show ?case by simp
next
  case (2 s msg now ins)
  show ?case
  proof (cases "update s msg now")
    case (Inl e)
    then show ?thesis by simp
  next
    case (Inr s')
    have v: "visited s ((msg, now) # ins) = s # visited s' ins"
      using Inr by simp
    from update_emits [OF Inr] "2.IH" [OF Inr] show ?thesis
      unfolding v rises_Cons falls_Cons last_visited_Cons by simp
  qed
qed

text \<open>
  C8. An \<^verbatim>\<open>update\<close> that returns appends to the trace exactly one event for each flag
  it changes (\<^verbatim>\<open>connected\<close> for \<^verbatim>\<open>connected\<close> becoming true, \<^verbatim>\<open>disconnected\<close> for it
  becoming false, \<^verbatim>\<open>armed\<close> and \<^verbatim>\<open>disarmed\<close> likewise) and nothing else, so an
  \<^verbatim>\<open>update\<close> that changes no flag emits nothing. Along any sequence of \<^verbatim>\<open>update\<close> calls
  the number of emissions of each event is the number of such changes of its flag. From
  a disarmed state, a heartbeat with bit 0x80 set emits \<^verbatim>\<open>armed\<close> once (after
  \<^verbatim>\<open>connected\<close>, if the state was disconnected), and the same heartbeat again changes
  the recorded time only.
\<close>

theorem update_events_match_flag_changes:
  "(update s msg now = Inr s' \<longrightarrow>
      trace s' = trace s
           @ (if \<not> connected s \<and> connected s' then [Emit connected_signal] else [])
           @ (if \<not> armed s \<and> armed s' then [Emit armed_signal] else [])
           @ (if armed s \<and> \<not> armed s' then [Emit disarmed_signal] else [])
           @ (if connected s \<and> \<not> connected s' then [Emit disconnected_signal] else []))
   \<and> count_list (trace (last (visited s ins))) (Emit connected_signal)
     = count_list (trace s) (Emit connected_signal) + rises connected (visited s ins)
   \<and> count_list (trace (last (visited s ins))) (Emit disconnected_signal)
     = count_list (trace s) (Emit disconnected_signal) + falls connected (visited s ins)
   \<and> count_list (trace (last (visited s ins))) (Emit armed_signal)
     = count_list (trace s) (Emit armed_signal) + rises armed (visited s ins)
   \<and> count_list (trace (last (visited s ins))) (Emit disarmed_signal)
     = count_list (trace s) (Emit disarmed_signal) + falls armed (visited s ins)
   \<and> (\<not> armed u \<and> and (base_mode m) 0x80 = 0x80 \<longrightarrow>
        (\<exists>u1. update u (Some m) t1 = Inr u1
           \<and> trace u1 = trace u @ (if connected u then [] else [Emit connected_signal]) @ [Emit armed_signal]
           \<and> update u1 (Some m) t2 = Inr (u1\<lparr>last_msg_time := Some t2\<rparr>)))"
proof -
  have a: "update s msg now = Inr s' \<longrightarrow>
      trace s' = trace s
           @ (if \<not> connected s \<and> connected s' then [Emit connected_signal] else [])
           @ (if \<not> armed s \<and> armed s' then [Emit armed_signal] else [])
           @ (if armed s \<and> \<not> armed s' then [Emit disarmed_signal] else [])
           @ (if connected s \<and> \<not> connected s' then [Emit disconnected_signal] else [])"
    using update_emits by blast
  have c: "\<not> armed u \<and> and (base_mode m) 0x80 = 0x80 \<longrightarrow>
        (\<exists>u1. update u (Some m) t1 = Inr u1
           \<and> trace u1 = trace u @ (if connected u then [] else [Emit connected_signal]) @ [Emit armed_signal]
           \<and> update u1 (Some m) t2 = Inr (u1\<lparr>last_msg_time := Some t2\<rparr>))"
    by (simp add: update_heartbeat)
  from a visited_counts [of s ins] c show ?thesis by blast
qed

theorem update_events_match_flag_changes_witness:
  "update init (Some \<lparr>base_mode = 0x81\<rparr>) 5 =
      Inr \<lparr>last_msg_time = Some 5, connected = True, armed = True,
           trace = [Emit connected_signal, Emit armed_signal]\<rparr>
   \<and> visited init [(Some \<lparr>base_mode = 0x81\<rparr>, 5), (Some \<lparr>base_mode = 0x81\<rparr>, 6), (None, 7)] =
      [init,
       \<lparr>last_msg_time = Some 5, connected = True, armed = True,
           trace = [Emit connected_signal, Emit armed_signal]\<rparr>,
       \<lparr>last_msg_time = Some 6, connected = True, armed = True,
           trace = [Emit connected_signal, Emit armed_signal]\<rparr>,
       \<lparr>last_msg_time = Some 6, connected = True, armed = True,
           trace = [Emit connected_signal, Emit armed_signal]\<rparr>]
   \<and> rises armed (visited init [(Some \<lparr>base_mode = 0x81\<rparr>, 5), (Some \<lparr>base_mode = 0x81\<rparr>, 6), (None, 7)]) = 1
   \<and> count_list (trace (last (visited init [(Some \<lparr>base_mode = 0x81\<rparr>, 5), (Some \<lparr>base_mode = 0x81\<rparr>, 6), (None, 7)])))
        (Emit armed_signal) = 1
   \<and> \<not> armed init \<and> and (base_mode \<lparr>base_mode = 0x81\<rparr>) 0x80 = 0x80
   \<and> update \<lparr>last_msg_time = Some 5, connected = True, armed = True,
           trace = [Emit connected_signal, Emit armed_signal]\<rparr> (Some \<lparr>base_mode = 0x81\<rparr>) 6 =
      Inr \<lparr>last_msg_time = Some 6, connected = True, armed = True,
           trace = [Emit connected_signal, Emit armed_signal]\<rparr>"
  using update_events_match_flag_changes [of init "Some \<lparr>base_mode = 0x81\<rparr>" 5
      "\<lparr>last_msg_time = Some 5, connected = True, armed = True,
           trace = [Emit connected_signal, Emit armed_signal]\<rparr>"
      "[(Some \<lparr>base_mode = 0x81\<rparr>, 5), (Some \<lparr>base_mode = 0x81\<rparr>, 6), (None, 7)]"
      init "\<lparr>base_mode = 0x81\<rparr>" 5 6]
  by (simp add: update_heartbeat update_silence init_def TIMEOUT_def)

subsection \<open>Commands and the flags\<close>

lemma rc_unchanged_flags:
  "connected (final (set_rc_input_pwms s pwms)) = connected s
   \<and> armed (final (set_rc_input_pwms s pwms)) = armed s
   \<and> last_msg_time (final (set_rc_input_pwms s pwms)) = last_msg_time s"
  by (simp add: set_rc_input_pwms_def final_def call_def split: sum.splits)

lemma rc_inputs_unchanged_flags:
  "connected (final (set_rc_inputs s values)) = connected s
   \<and> armed (final (set_rc_inputs s values)) = armed s
   \<and> last_msg_time (final (set_rc_inputs s values)) = last_msg_time s"
proof (cases "inputs_loop [] values")
  case (Inl e)
  then show ?thesis by (simp add: set_rc_inputs_def final_def)
next
  case (Inr pwms)
  with rc_unchanged_flags [of s pwms] show ?thesis by (simp add: set_rc_inputs_def)
qed

lemma set_relay_flags:
  "connected (set_relay s relay state raised) = connected s
   \<and> armed (set_relay s relay state raised) = armed s
   \<and> last_msg_time (set_relay s relay state raised) = last_msg_time s"
  by (simp add: set_relay_def call_def)

lemma turn_off_relays_flags:
  "connected (turn_off_relays s raised) = connected s
   \<and> armed (turn_off_relays s raised) = armed s
   \<and> last_msg_time (turn_off_relays s raised) = last_msg_time s"
  by (simp add: turn_off_relays_def turn_off_relays_loop_trace)

text \<open>\<^verbatim>\<open>stop_thrusters\<close> never raises: its six zeros all map to 1500.\<close>

lemma stop_thrusters_returns:
  "stop_thrusters s =
     (if connected s \<and> armed s
      then Inr (call (RcChannelsOverrideSend
        [1500, 1500, 1500, 1500, 1500, 1500, 65535, 65535, 65535,
         65535, 65535, 65535, 65535, 65535, 65535, 65535, 65535, 65535]) s)
      else Inr s)"
  by (simp add: stop_thrusters_def set_rc_inputs_def input_pwm_ends
      set_rc_input_pwms_def gate_defs numeral_eq_Suc)

text \<open>
  C10. None of \<^verbatim>\<open>arm\<close>, \<^verbatim>\<open>disarm\<close>, \<^verbatim>\<open>set_rc_inputs\<close>, \<^verbatim>\<open>set_rc_input_pwms\<close>,
  \<^verbatim>\<open>set_relay\<close>, \<^verbatim>\<open>stop_thrusters\<close>, \<^verbatim>\<open>turn_off_relays\<close> changes \<^verbatim>\<open>connected\<close> or
  \<^verbatim>\<open>armed\<close>, whether the call returns or raises and whether or not a relay send fails.
  \<^verbatim>\<open>arm\<close> sends the arm request and attempts the relay connection, and \<^verbatim>\<open>is_armed\<close>
  answers as before; \<^verbatim>\<open>armed\<close> changes only in an \<^verbatim>\<open>update\<close> that receives a heartbeat,
  which sets it to the value of bit 0x80 of the base mode.
\<close>

theorem commands_leave_flags:
  "connected (arm s) = connected s \<and> armed (arm s) = armed s
   \<and> connected (disarm s raised) = connected s \<and> armed (disarm s raised) = armed s
   \<and> connected (final (set_rc_inputs s values)) = connected s
   \<and> armed (final (set_rc_inputs s values)) = armed s
   \<and> connected (final (set_rc_input_pwms s pwms)) = connected s
   \<and> armed (final (set_rc_input_pwms s pwms)) = armed s
   \<and> connected (set_relay s relay state failed) = connected s
   \<and> armed (set_relay s relay state failed) = armed s
   \<and> connected (final (stop_thrusters s)) = connected s
   \<and> armed (final (stop_thrusters s)) = armed s
   \<and> connected (turn_off_relays s raised) = connected s
   \<and> armed (turn_off_relays s raised) = armed s
   \<and> trace (arm s) = trace s @ [ArducopterArm, SocketConnectEx]
   \<and> is_armed (arm s) = is_armed s
   \<and> (update u (Some m) now = Inr u' \<longrightarrow> is_armed u' = (and (base_mode m) 0x80 = 0x80))
   \<and> (update v None now' = Inr v' \<longrightarrow> is_armed v' = is_armed v)"
proof -
  have a: "connected (arm s) = connected s \<and> armed (arm s) = armed s
    \<and> trace (arm s) = trace s @ [ArducopterArm, SocketConnectEx] \<and> is_armed (arm s) = is_armed s"
    by (simp add: arm_def call_def is_armed_def)
  have d: "connected (disarm s raised) = connected s \<and> armed (disarm s raised) = armed s"
    using turn_off_relays_flags [of s raised] by (simp add: disarm_def call_def)
  have u1: "update u (Some m) now = Inr u' \<longrightarrow> is_armed u' = (and (base_mode m) 0x80 = 0x80)"
    by (auto simp: update_heartbeat is_armed_def)
  have u2: "update v None now' = Inr v' \<longrightarrow> is_armed v' = is_armed v"
    by (auto simp: update_silence is_armed_def split: if_splits option.splits)
  from a d rc_inputs_unchanged_flags [of s "values"] rc_unchanged_flags [of s pwms]
    set_relay_flags [of s relay state failed] turn_off_relays_flags [of s raised]
    rc_inputs_unchanged_flags [of s "[(FORWARD, 0), (LATERAL, 0), (THROTTLE, 0), (YAW, 0), (PITCH, 0), (ROLL, 0)]"]
    u1 u2
  show ?thesis
    unfolding stop_thrusters_def by blast
qed

theorem commands_leave_flags_witness:
  "update (arm init) (Some \<lparr>base_mode = 0x80\<rparr>) 1 =
     Inr \<lparr>last_msg_time = Some 1, connected = True, armed = True,
          trace = [ArducopterArm, SocketConnectEx, Emit connected_signal, Emit armed_signal]\<rparr>
   \<and> \<not> is_armed (arm init)
   \<and> is_armed \<lparr>last_msg_time = Some 1, connected = True, armed = True,
          trace = [ArducopterArm, SocketConnectEx, Emit connected_signal, Emit armed_signal]\<rparr>
   \<and> update (arm init) None 9 = Inr (arm init)
   \<and> set_relay (init\<lparr>connected := True, armed := True\<rparr>) LIGHTS True True =
       \<lparr>last_msg_time = None, connected = True, armed = True,
        trace = [SocketSendall [5, 1] True]\<rparr>"
  using commands_leave_flags
    [of "init\<lparr>connected := True, armed := True\<rparr>" "\<lambda>r. True" "[]" "[]" LIGHTS True True
      "arm init" "\<lparr>base_mode = 0x80\<rparr>" 1
      "\<lparr>last_msg_time = Some 1, connected = True, armed = True,
          trace = [ArducopterArm, SocketConnectEx, Emit connected_signal, Emit armed_signal]\<rparr>"
      "arm init" 9 "arm init"]
  by (simp add: update_heartbeat update_silence arm_def call_def init_def set_relay_def gate_defs)

end
